theory Spec2Isabelle
  imports Main "HOL-Library.Sublist" "HOL-Library.Extended_Nat"
begin

section \<open>JavaScript strings\<close>

text \<open>
  A JavaScript string is a sequence of code units and \<open>length\<close> counts them. The model
  uses \<^typ>\<open>string\<close>, one \<^typ>\<open>char\<close> for each code unit, which covers the code units
  below 256. Among those, the white space of \<open>\s\<close> and of \<open>trim()\<close> is TAB, LF, VT, FF,
  CR, SPACE and NBSP.
\<close>

definition is_space :: "char \<Rightarrow> bool" where
  "is_space c = (c \<in> set [CHR 0x09, CHR 0x0A, CHR 0x0B, CHR 0x0C, CHR 0x0D, CHR 0x20, CHR 0xA0])"

text \<open>\<open>s.trim()\<close>\<close>

definition trim :: "string \<Rightarrow> string" where
  "trim s = rev (dropWhile is_space (rev (dropWhile is_space s)))"

text \<open>\<open>s.replace(/\s+/g, ' ')\<close>: every maximal run of white space becomes one space.\<close>

function collapse_ws :: "string \<Rightarrow> string" where
  "collapse_ws [] = []"
| "collapse_ws (c # cs) =
     (if is_space c then CHR 0x20 # collapse_ws (dropWhile is_space cs)
      else c # collapse_ws cs)"
  by pat_completeness auto
termination
  by (relation "measure length") (auto simp: less_Suc_eq_le length_dropWhile_le)

text \<open>\<open>s.startsWith(p)\<close>, \<open>s.includes(t)\<close> and \<open>s.substring(0, n)\<close>\<close>

definition startsWith :: "string \<Rightarrow> string \<Rightarrow> bool" where
  "startsWith s p = prefix p s"

definition includesStr :: "string \<Rightarrow> string \<Rightarrow> bool" where
  "includesStr s t = sublist t s"

definition substring0 :: "string \<Rightarrow> nat \<Rightarrow> string" where
  "substring0 s n = take n s"

section \<open>The parsed document\<close>

text \<open>
  cheerio is a library outside the repository. A loaded document is taken as the function
  that answers a selector with the elements it matches, in document order; an element
  gives its text and its attributes. Where the source removes the noise elements first
  (\<open>$('script, style, ...').remove()\<close>), the document stands for the one after the
  removal, which is the only one the later queries see.
\<close>

record element =
  el_text :: string
  attr :: "string \<Rightarrow> string option"

type_synonym dom = "string \<Rightarrow> element list"

text \<open>\<open>$(selector).first()\<close>: the selection of the first match, empty when there is none.\<close>

definition first :: "element list \<Rightarrow> element list" where
  "first els = take 1 els"

text \<open>\<open>selection.text()\<close>: the texts of the selected elements, concatenated.\<close>

definition textOf :: "element list \<Rightarrow> string" where
  "textOf els = concat (map el_text els)"

text \<open>A failed fetch, render or parse: the exception, with its message.\<close>

datatype failure = Failure string

section \<open>Enhancement script: scraping one reference\<close>

definition contentSelectors_index :: "string list" where
  \<open>contentSelectors_index =
     [''article'', ''[role="main"]'', ''.post-content'', ''.entry-content'',
      ''.article-content'', ''.article-body'', ''.content'', ''main'', ''.post-body'',
      ''[itemprop="articleBody"]'']\<close>

text \<open>
  The selector loop, shared in shape by both scrapers:
  \<^verbatim>\<open>
  for (const selector of contentSelectors) {
    const element = $(selector).first();
    if (element.length > 0) {
      mainContent = element.text().trim();
      if (mainContent.length > 500) break;
    }
  }\<close>
  The threshold is 500 in the enhancement script and 200 in the harvesting scraper.
\<close>

fun content_loop :: "nat \<Rightarrow> dom \<Rightarrow> string list \<Rightarrow> string \<Rightarrow> string" where
  "content_loop threshold d [] mainContent = mainContent"
| "content_loop threshold d (selector # rest) mainContent =
     (let element = first (d selector) in
      if length element > 0 then
        (let mainContent' = trim (textOf element) in
         if length mainContent' > threshold then mainContent'
         else content_loop threshold d rest mainContent')
      else content_loop threshold d rest mainContent)"

text \<open>Lines 108 to 136 of the script: the loop, then the fallback to the whole body.\<close>

definition selectMainContent :: "dom \<Rightarrow> string" where
  "selectMainContent d =
     (let mainContent = content_loop 500 d contentSelectors_index [] in
      if mainContent = [] \<or> length mainContent < 500 then trim (textOf (d ''body''))
      else mainContent)"

text \<open>Lines 138 to 145: white space collapsed, trimmed, cut at 4000.\<close>

definition finishMainContent :: "string \<Rightarrow> string" where
  "finishMainContent mainContent =
     (let mainContent' = trim (collapse_ws mainContent) in
      if length mainContent' > 4000 then substring0 mainContent' 4000 else mainContent')"

text \<open>
  \<open>scrapeContentFromURL\<close>, given what \<open>axios.get\<close> followed by \<open>cheerio.load\<close> produced
  for the URL. Every exception of the \<open>try\<close> block ends in \<open>return ''\<close>.
\<close>

definition scrapeContent :: "failure + dom \<Rightarrow> string" where
  "scrapeContent response =
     (case response of
        Inl error \<Rightarrow> []
      | Inr d \<Rightarrow> finishMainContent (selectMainContent d))"

section \<open>Enhancement script: the search\<close>

text \<open>
  One result of the search API; \<open>link\<close> is \<open>None\<close> when the field is absent. The body of
  a response is its \<open>items\<close>, \<open>None\<close> when the response has none.
\<close>

record item =
  link :: "string option"

text \<open>The callback of \<open>response.data.items.forEach\<close>, run over the items in order.\<close>

fun collectLinks :: "item list \<Rightarrow> string list \<Rightarrow> string list" where
  "collectLinks [] foundLinks = foundLinks"
| "collectLinks (it # items) foundLinks =
     (case link it of
        None \<Rightarrow> collectLinks items foundLinks
      | Some url \<Rightarrow>
          (let isValid =
             (url \<noteq> [] \<and> startsWith url ''http'' \<and> \<not> includesStr url ''youtube.com''
              \<and> \<not> includesStr url ''facebook.com'' \<and> length foundLinks < 2)
           in if isValid then collectLinks items (foundLinks @ [url])
              else collectLinks items foundLinks))"

text \<open>\<open>searchGoogleForArticle\<close>, given what \<open>axios.get(apiUrl)\<close> produced.\<close>

definition searchLinks :: "failure + item list option \<Rightarrow> string list" where
  "searchLinks response =
     (case response of
        Inl error \<Rightarrow> []
      | Inr None \<Rightarrow> []
      | Inr (Some items) \<Rightarrow> collectLinks items [])"

section \<open>Enhancement script: one article\<close>

text \<open>
  The services the script calls are outside it: the search API, the pages of the web, the
  generation API and the articles API. Each is a function of the world \<open>'w\<close> that answers
  and gives the next world, so that two calls with the same argument need not agree.
  The answer of the articles API is whether \<open>response.data\<close> is truthy.
\<close>

record reference =
  ref_url :: string
  ref_content :: string

text \<open>The values the prompt template is filled with.\<close>

record prompt =
  p_title :: string
  p_content :: string
  p_ref1 :: string
  p_ref2 :: string

record articleData =
  ad_title :: string
  ad_content :: string
  ad_type :: string
  ad_originalArticleId :: string
  ad_references :: "string list"

record 'w services =
  google_get :: "string \<Rightarrow> 'w \<Rightarrow> (failure + item list option) \<times> 'w"
  page_get :: "string \<Rightarrow> 'w \<Rightarrow> (failure + dom) \<times> 'w"
  groq_create :: "prompt \<Rightarrow> 'w \<Rightarrow> (failure + string) \<times> 'w"
  articles_post :: "articleData \<Rightarrow> 'w \<Rightarrow> (failure + bool) \<times> 'w"

text \<open>The calls one run makes, in order; a scrape is logged with what it returned.\<close>

datatype event =
  SearchCall string
| ScrapeCall string string
| EnhanceCall prompt
| SaveCall articleData

definition searchGoogleForArticle :: "'w services \<Rightarrow> string \<Rightarrow> 'w \<Rightarrow> string list \<times> 'w" where
  "searchGoogleForArticle svc articleTitle w =
     (let (response, w') = google_get svc articleTitle w in (searchLinks response, w'))"

definition scrapeContentFromURL :: "'w services \<Rightarrow> string \<Rightarrow> 'w \<Rightarrow> string \<times> 'w" where
  "scrapeContentFromURL svc url w =
     (let (response, w') = page_get svc url w in (scrapeContent response, w'))"

text \<open>
  \<open>enhanceArticleWithAI\<close>; \<open>None\<close> is \<open>null\<close>. The generation API answers with the text of
  the first choice; an answer without one is a failure, as reading its length throws.
\<close>

definition refContent :: "reference list \<Rightarrow> nat \<Rightarrow> string" where
  "refContent referenceArticles i =
     (if i < length referenceArticles \<and> ref_content (referenceArticles ! i) \<noteq> []
      then ref_content (referenceArticles ! i) else ''Not available'')"

definition aiPrompt :: "string \<Rightarrow> string \<Rightarrow> reference list \<Rightarrow> prompt" where
  "aiPrompt originalTitle originalContent referenceArticles =
     \<lparr>p_title = originalTitle,
      p_content = substring0 originalContent 2000,
      p_ref1 = substring0 (refContent referenceArticles 0) 1500,
      p_ref2 = substring0 (refContent referenceArticles 1) 1500\<rparr>"

definition enhanceArticleWithAI ::
  "'w services \<Rightarrow> string \<Rightarrow> string \<Rightarrow> reference list \<Rightarrow> 'w \<Rightarrow> string option \<times> 'w" where
  "enhanceArticleWithAI svc originalTitle originalContent referenceArticles w =
     (let (aiResponse, w') =
            groq_create svc (aiPrompt originalTitle originalContent referenceArticles) w
      in case aiResponse of
           Inl error \<Rightarrow> (None, w')
         | Inr enhancedText \<Rightarrow> (Some enhancedText, w'))"

text \<open>\<open>saveEnhancedArticle\<close>; the result says whether it returned a truthy value.\<close>

definition enhancedArticleData ::
  "string \<Rightarrow> string \<Rightarrow> string \<Rightarrow> string list \<Rightarrow> articleData" where
  "enhancedArticleData originalId originalTitle enhancedContent referenceUrls =
     \<lparr>ad_title = originalTitle @ '' (Enhanced)'',
      ad_content = enhancedContent,
      ad_type = ''updated'',
      ad_originalArticleId = originalId,
      ad_references = referenceUrls\<rparr>"

definition saveEnhancedArticle ::
  "'w services \<Rightarrow> string \<Rightarrow> string \<Rightarrow> string \<Rightarrow> string list \<Rightarrow> 'w \<Rightarrow> bool \<times> 'w" where
  "saveEnhancedArticle svc originalId originalTitle enhancedContent referenceUrls w =
     (let (response, w') =
            articles_post svc
              (enhancedArticleData originalId originalTitle enhancedContent referenceUrls) w
      in case response of
           Inl error \<Rightarrow> (False, w')
         | Inr truthy \<Rightarrow> (truthy, w'))"

text \<open>Step 2 of \<open>processOneArticle\<close>: the loop over the search results.\<close>

fun scrapeReferences ::
  "'w services \<Rightarrow> string list \<Rightarrow> reference list \<Rightarrow> 'w
     \<Rightarrow> reference list \<times> event list \<times> 'w" where
  "scrapeReferences svc [] references w = (references, [], w)"
| "scrapeReferences svc (url # urls) references w =
     (let (content, w') = scrapeContentFromURL svc url w;
          references' =
            (if content \<noteq> [] \<and> length content > 500
             then references @ [\<lparr>ref_url = url, ref_content = content\<rparr>]
             else references);
          (refs, calls, w'') = scrapeReferences svc urls references' w'
      in (refs, ScrapeCall url content # calls, w''))"

text \<open>Decimal digits of a number, for \<open>${i + 1}\<close>, and \<open>lines.join('\n')\<close>.\<close>

function showNat :: "nat \<Rightarrow> string" where
  "showNat n =
     (if n < 10 then [char_of (48 + n)]
      else showNat (n div 10) @ [char_of (48 + n mod 10)])"
  by pat_completeness auto
termination
  by (relation "measure id") auto

fun joinLines :: "string list \<Rightarrow> string" where
  "joinLines [] = []"
| "joinLines [l] = l"
| "joinLines (l # ls) = l @ [CHR 0x0A] @ joinLines ls"

definition referencesSection :: "reference list \<Rightarrow> string" where
  "referencesSection references =
     [CHR 0x0A, CHR 0x0A] @ ''---'' @ [CHR 0x0A, CHR 0x0A] @ ''## References''
     @ [CHR 0x0A, CHR 0x0A] @ ''This article was enhanced based on insights from:''
     @ [CHR 0x0A, CHR 0x0A]
     @ joinLines (map (\<lambda>(i, ref). showNat (i + 1) @ ''. [Source '' @ showNat (i + 1)
                                   @ ''](''  @ ref_url ref @ '')'')
                      (List.enumerate 0 references))
     @ [CHR 0x0A, CHR 0x0A] @ ''*Enhanced by AI for improved SEO and readability.*''
     @ [CHR 0x0A]"

text \<open>The article read from the articles API, and what \<open>processOneArticle\<close> returns.\<close>

record original =
  o_id :: string
  o_title :: string
  o_content :: string

record outcome =
  success :: bool
  reason :: "string option"

definition processOneArticle ::
  "'w services \<Rightarrow> original \<Rightarrow> 'w \<Rightarrow> outcome \<times> event list \<times> 'w" where
  "processOneArticle svc a w =
     (let (googleResults, w1) = searchGoogleForArticle svc (o_title a) w;
          log1 = [SearchCall (o_title a)]
      in if length googleResults = 0
         then (\<lparr>success = False, reason = Some ''No Google results''\<rparr>, log1, w1)
         else
           (let (references, log2, w2) = scrapeReferences svc googleResults [] w1 in
            if length references = 0
            then (\<lparr>success = False, reason = Some ''Scraping failed''\<rparr>, log1 @ log2, w2)
            else
              (let (enhanced, w3) =
                     enhanceArticleWithAI svc (o_title a) (o_content a) references w2;
                   log3 = [EnhanceCall (aiPrompt (o_title a) (o_content a) references)]
               in case enhanced of
                    None \<Rightarrow>
                      (\<lparr>success = False, reason = Some ''AI failed''\<rparr>, log1 @ log2 @ log3, w3)
                  | Some enhancedText \<Rightarrow>
                      if enhancedText = []
                      then (\<lparr>success = False, reason = Some ''AI failed''\<rparr>,
                            log1 @ log2 @ log3, w3)
                      else
                        (let finalContent = enhancedText @ referencesSection references;
                             referenceUrls = map ref_url references;
                             (saved, w4) =
                               saveEnhancedArticle svc (o_id a) (o_title a) finalContent
                                 referenceUrls w3;
                             log4 = [SaveCall (enhancedArticleData (o_id a) (o_title a)
                                                 finalContent referenceUrls)]
                         in if saved
                            then (\<lparr>success = True, reason = None\<rparr>,
                                  log1 @ log2 @ log3 @ log4, w4)
                            else (\<lparr>success = False, reason = Some ''Save failed''\<rparr>,
                                  log1 @ log2 @ log3 @ log4, w4)))))"

section \<open>Harvesting scraper: the last page\<close>

text \<open>
  \<open>href.match(/\/blogs\/page\/(\d+)/)\<close>: the leftmost place where the path is followed
  by a digit, and there the longest run of digits. The result is the captured group.
\<close>

definition is_digit :: "char \<Rightarrow> bool" where
  "is_digit c = (c \<in> set ''0123456789'')"

fun match_page :: "string \<Rightarrow> string option" where
  "match_page [] = None"
| "match_page (c # cs) =
     (if startsWith (c # cs) ''/blogs/page/''
         \<and> takeWhile is_digit (drop (length ''/blogs/page/'') (c # cs)) \<noteq> []
      then Some (takeWhile is_digit (drop (length ''/blogs/page/'') (c # cs)))
      else match_page cs)"

text \<open>
  \<open>parseInt\<close> on a string of decimal digits: the integer that the digits denote, then the
  JavaScript number for it. A number holds an integer below \<open>2 ^ 53\<close> exactly; a larger
  one is rounded to 53 significant bits, to the nearest and to the even one at a tie, and
  is \<open>Infinity\<close> from \<open>2 ^ 1024\<close> on. The numbers that can arise here are the naturals
  and \<open>Infinity\<close>, which is \<^typ>\<open>enat\<close>.
\<close>

definition digit_val :: "char \<Rightarrow> nat" where
  "digit_val c = of_char c - 48"

definition decimal :: "string \<Rightarrow> nat" where
  "decimal ds = foldl (\<lambda>n c. 10 * n + digit_val c) 0 ds"

function bitlen :: "nat \<Rightarrow> nat" where
  "bitlen n = (if n = 0 then 0 else Suc (bitlen (n div 2)))"
  by pat_completeness auto
termination
  by (relation "measure id") auto

declare bitlen.simps [simp del]

definition toNumber :: "nat \<Rightarrow> enat" where
  "toNumber n =
     (if n < 2 ^ 53 then enat n
      else
        (let e = bitlen n - 53;
             q = n div 2 ^ e;
             r = n mod 2 ^ e;
             q' = (if 2 * r > 2 ^ e \<or> (2 * r = 2 ^ e \<and> odd q) then q + 1 else q)
         in if q' * 2 ^ e \<ge> 2 ^ 1024 then \<infinity> else enat (q' * 2 ^ e)))"

definition parseInt :: "string \<Rightarrow> enat" where
  "parseInt ds = toNumber (decimal ds)"

text \<open>The callback of \<open>$('a').each\<close>, run over the anchors in order.\<close>

fun lastPage_each :: "element list \<Rightarrow> enat \<Rightarrow> enat" where
  "lastPage_each [] lastPage = lastPage"
| "lastPage_each (a # anchors) lastPage =
     (case attr a ''href'' of
        None \<Rightarrow> lastPage_each anchors lastPage
      | Some href \<Rightarrow>
          if href \<noteq> [] then
            (case match_page href of
               None \<Rightarrow> lastPage_each anchors lastPage
             | Some m \<Rightarrow>
                 (let pageNum = parseInt m in
                  if pageNum > lastPage then lastPage_each anchors pageNum
                  else lastPage_each anchors lastPage))
          else lastPage_each anchors lastPage)"

text \<open>\<open>findLastPage\<close>, given what \<open>scrapeWithPuppeteer(baseUrl)\<close> produced.\<close>

definition findLastPage :: "failure + dom \<Rightarrow> enat" where
  "findLastPage page =
     (case page of
        Inl error \<Rightarrow> 1
      | Inr d \<Rightarrow> lastPage_each (d ''a'') 1)"

section \<open>Harvesting scraper: the article links\<close>

definition selectors :: "string list" where
  "selectors =
     [''article a'', ''.post a'', ''.blog-post a'', ''.entry a'', ''h2 a'', ''h3 a'',
      ''.post-title a'', ''.entry-title a'']"

text \<open>An href that does not start with \<open>http\<close> is put under the site's origin.\<close>

definition resolveHref :: "string \<Rightarrow> string" where
  "resolveHref href =
     (if \<not> startsWith href ''http''
      then ''https://beyondchats.com'' @ (if startsWith href ''/'' then href else ''/'' @ href)
      else href)"

text \<open>The callback of \<open>$(selector).each\<close>, run over the matches of one selector.\<close>

fun links_each :: "element list \<Rightarrow> string list \<Rightarrow> string list" where
  "links_each [] articleLinks = articleLinks"
| "links_each (a # anchors) articleLinks =
     (case attr a ''href'' of
        None \<Rightarrow> links_each anchors articleLinks
      | Some href \<Rightarrow>
          if href \<noteq> [] \<and> includesStr href ''blog'' \<and> \<not> includesStr href ''#'' then
            (let href' = resolveHref href
             in if href' \<notin> set articleLinks
                then links_each anchors (articleLinks @ [href'])
                else links_each anchors articleLinks)
          else links_each anchors articleLinks)"

text \<open>The loop over the selectors, left as soon as five links are there.\<close>

fun links_loop :: "dom \<Rightarrow> string list \<Rightarrow> string list \<Rightarrow> string list" where
  "links_loop d [] articleLinks = articleLinks"
| "links_loop d (selector # rest) articleLinks =
     (let articleLinks' = links_each (d selector) articleLinks in
      if length articleLinks' \<ge> 5 then articleLinks'
      else links_loop d rest articleLinks')"

text \<open>\<open>scrapeArticleLinks\<close>, given what \<open>scrapeWithPuppeteer(pageUrl)\<close> produced.\<close>

definition scrapeArticleLinks :: "failure + dom \<Rightarrow> string list" where
  "scrapeArticleLinks page =
     (case page of
        Inl error \<Rightarrow> []
      | Inr d \<Rightarrow> take 5 (links_loop d selectors []))"

section \<open>Harvesting scraper: one article\<close>

record article =
  art_title :: string
  art_content :: string
  art_url :: string
  art_author :: string
  art_imageUrl :: "string option"
  art_type :: string

definition titleSelectors :: "string list" where
  "titleSelectors = [''h1'', ''.entry-title'', ''.post-title'', ''h1.title'', ''article h1'']"

definition contentSelectors_scraper :: "string list" where
  "contentSelectors_scraper =
     [''article'', ''.entry-content'', ''.post-content'', ''.article-content'', ''.content'',
      ''main article'', ''.post-body'']"

definition authorSelectors :: "string list" where
  "authorSelectors = [''.author'', ''.by-author'', ''.post-author'', ''.author-name'']"

definition imgSelectors :: "string list" where
  "imgSelectors = [''article img'', ''.post-thumbnail img'', ''.featured-image img'', ''img'']"

text \<open>
  The loops for the title and for the author have one shape: each matching selector
  overwrites the value, and the first non-empty value ends the loop.
\<close>

fun text_loop :: "dom \<Rightarrow> string list \<Rightarrow> string \<Rightarrow> string" where
  "text_loop d [] title = title"
| "text_loop d (selector # rest) title =
     (let element = first (d selector) in
      if length element > 0 then
        (let title' = trim (textOf element) in
         if title' \<noteq> [] then title' else text_loop d rest title')
      else text_loop d rest title)"

text \<open>\<open>element.attr('src')\<close> reads the first selected element; \<open>None\<close> is \<open>undefined\<close> or \<open>null\<close>.\<close>

fun image_loop :: "dom \<Rightarrow> string list \<Rightarrow> string option \<Rightarrow> string option" where
  "image_loop d [] imageUrl = imageUrl"
| "image_loop d (selector # rest) imageUrl =
     (case first (d selector) of
        [] \<Rightarrow> image_loop d rest imageUrl
      | element # _ \<Rightarrow>
          (case attr element ''src'' of
             None \<Rightarrow> image_loop d rest None
           | Some src \<Rightarrow>
               (let imageUrl' =
                  (if src \<noteq> [] \<and> \<not> startsWith src ''http''
                   then ''https://beyondchats.com'' @ src else src)
                in if imageUrl' \<noteq> [] then Some imageUrl'
                   else image_loop d rest (Some imageUrl'))))"

text \<open>The title and the content of a page, as \<open>scrapeArticleContent\<close> computes them.\<close>

definition extractTitle :: "dom \<Rightarrow> string" where
  "extractTitle d = text_loop d titleSelectors []"

definition extractContent :: "dom \<Rightarrow> string" where
  "extractContent d =
     (let content = content_loop 200 d contentSelectors_scraper [] in
      trim (collapse_ws content))"

text \<open>\<open>scrapeArticleContent(url)\<close>, given what \<open>scrapeWithPuppeteer(url)\<close> produced.\<close>

definition scrapeArticleContent :: "string \<Rightarrow> failure + dom \<Rightarrow> article option" where
  "scrapeArticleContent url page =
     (case page of
        Inl error \<Rightarrow> None
      | Inr d \<Rightarrow>
          (let title = extractTitle d;
               content = extractContent d;
               author = text_loop d authorSelectors ''Unknown'';
               imageUrl = image_loop d imgSelectors None
           in if title = [] \<or> content = [] \<or> length content < 100 then None
              else Some \<lparr>art_title = title, art_content = content, art_url = url,
                         art_author = author, art_imageUrl = imageUrl,
                         art_type = ''original''\<rparr>))"

section \<open>Harvesting scraper: saving\<close>

text \<open>
  The mongoose model \<open>Article\<close> is outside the sources. It is taken as two operations on
  a store of any type: \<open>findOne({ url })\<close>, which reads, and \<open>create(articleData)\<close>,
  which gives the new store. Either may throw.
\<close>

record 's article_model =
  findOne :: "'s \<Rightarrow> string \<Rightarrow> failure + article option"
  create :: "'s \<Rightarrow> article \<Rightarrow> failure + 's"

text \<open>
  Step 4 of \<open>scrapeArticles\<close>. An exception is caught inside the loop body, so the loop
  goes on with the next article. The result is the store and the articles for which
  \<open>create\<close> was called.
\<close>

fun saveArticles :: "'s article_model \<Rightarrow> article list \<Rightarrow> 's \<Rightarrow> 's \<times> article list" where
  "saveArticles M [] s = (s, [])"
| "saveArticles M (articleData # rest) s =
     (case findOne M s (art_url articleData) of
        Inl error \<Rightarrow> saveArticles M rest s
      | Inr (Some existing) \<Rightarrow> saveArticles M rest s
      | Inr None \<Rightarrow>
          (case create M s articleData of
             Inl error \<Rightarrow>
               (let (s', created) = saveArticles M rest s in (s', articleData # created))
           | Inr s1 \<Rightarrow>
               (let (s', created) = saveArticles M rest s1 in (s', articleData # created))))"

section \<open>Notions used in the statements\<close>

text \<open>
  A selector matches when it selects an element; its trimmed text is the text of the
  first one, trimmed; it is sufficient when that text is longer than the threshold.
\<close>

definition matches :: "dom \<Rightarrow> string \<Rightarrow> bool" where
  "matches d selector = (d selector \<noteq> [])"

definition trimmed :: "dom \<Rightarrow> string \<Rightarrow> string" where
  "trimmed d selector = trim (textOf (first (d selector)))"

definition sufficient :: "nat \<Rightarrow> dom \<Rightarrow> string \<Rightarrow> bool" where
  "sufficient threshold d selector =
     (matches d selector \<and> threshold < length (trimmed d selector))"

text \<open>A search result that may be kept, whatever was kept before it.\<close>

definition validLink :: "item \<Rightarrow> bool" where
  "validLink it =
     (case link it of
        None \<Rightarrow> False
      | Some url \<Rightarrow>
          url \<noteq> [] \<and> startsWith url ''http'' \<and> \<not> includesStr url ''youtube.com''
          \<and> \<not> includesStr url ''facebook.com'')"

text \<open>
  The digits of the page number in an anchor whose href matches the pattern, and those of
  all the anchors of a page, in document order.
\<close>

definition pageDigit :: "element \<Rightarrow> string option" where
  "pageDigit a =
     (case attr a ''href'' of
        None \<Rightarrow> None
      | Some href \<Rightarrow> if href = [] then None else match_page href)"

definition pageDigits :: "dom \<Rightarrow> string list" where
  "pageDigits d = List.map_filter pageDigit (d ''a'')"

text \<open>The hrefs of the anchors that a list of selectors selects.\<close>

definition hrefsOf :: "dom \<Rightarrow> string list \<Rightarrow> string list" where
  "hrefsOf d sels = concat (map (\<lambda>sel. List.map_filter (\<lambda>a. attr a ''href'') (d sel)) sels)"

text \<open>The links that a list of hrefs can give: those with the marker and no \<open>#\<close>, resolved.\<close>

definition okHrefs :: "string list \<Rightarrow> string set" where
  "okHrefs hs =
     {resolveHref h | h. h \<in> set hs \<and> includesStr h ''blog'' \<and> \<not> includesStr h ''#''}"

section \<open>Example inputs\<close>

definition el :: "string \<Rightarrow> element" where
  "el t = \<lparr>el_text = t, attr = (\<lambda>_. None)\<rparr>"

definition anchor :: "string \<Rightarrow> element" where
  "anchor href = \<lparr>el_text = [], attr = [''href'' \<mapsto> href]\<rparr>"

definition no_page :: dom where
  "no_page = (\<lambda>_. [])"

text \<open>An article page whose \<open>article\<close> element holds 4001 letters.\<close>

definition page_long :: dom where
  "page_long =
     no_page(''h1'' := [el ''Title''], ''article'' := [el (replicate 4001 CHR ''a'')])"

text \<open>
  A page on which no content selector is sufficient: after the title, \<open>article\<close> holds 150
  letters and \<open>.content\<close> holds 120, and 30 more letters follow in the body.
\<close>

definition page_short :: dom where
  "page_short =
     no_page(''h1'' := [el ''Title''],
             ''article'' := [el (replicate 150 CHR ''x'')],
             ''.content'' := [el (replicate 120 CHR ''y'')],
             ''body'' := [el (''Title'' @ replicate 150 CHR ''x'' @ replicate 120 CHR ''y''
                              @ replicate 30 CHR ''z'')])"

text \<open>A page with no title, and a page whose content is too short.\<close>

definition page_untitled :: dom where
  "page_untitled = no_page(''article'' := [el (replicate 150 CHR ''a'')])"

definition page_thin :: dom where
  "page_thin = no_page(''h1'' := [el ''Title''], ''article'' := [el (replicate 99 CHR ''a'')])"

text \<open>A page with a short body and nothing else, and a page with a 600 letter article.\<close>

definition page_brief :: dom where
  "page_brief = no_page(''body'' := [el ''  short   text  ''])"

definition page_ref :: dom where
  "page_ref = no_page(''article'' := [el (replicate 600 CHR ''r'')])"

text \<open>
  Listing pages: one whose only pagination link is to page 0, one whose only pagination
  link is to page \<open>2 ^ 53 + 1\<close>, one with three links.
\<close>

definition page_zero :: dom where
  "page_zero = no_page(''a'' := [anchor ''/blogs/page/0/''])"

definition page_big :: dom where
  "page_big = no_page(''a'' := [anchor ''/blogs/page/9007199254740993/''])"

definition page_three :: dom where
  "page_three =
     no_page(''a'' := [anchor ''https://beyondchats.com/blogs/page/2/'', el ''Home'',
                      anchor ''/blogs/page/5/'', anchor ''/about'', anchor ''/blogs/page/3/''])"

text \<open>A listing page with a repeated link, a fragment link and a link outside the blog.\<close>

definition page_links :: dom where
  "page_links =
     no_page(''article a'' :=
               [anchor ''/blogs/one/'', anchor ''https://beyondchats.com/blogs/two/'',
                anchor ''/blogs/one/'', anchor ''/blogs/one/#comments'', anchor ''/about''],
             ''h2 a'' := [anchor ''blogs/three/''])"

text \<open>A listing page with six links under \<open>article a\<close> and one more under \<open>h2 a\<close>.\<close>

definition page_many :: dom where
  "page_many =
     no_page(''article a'' :=
               [anchor ''/blogs/p1'', anchor ''/blogs/p2'', anchor ''/blogs/p3'',
                anchor ''/blogs/p4'', anchor ''/blogs/p5'', anchor ''/blogs/p6''],
             ''h2 a'' := [anchor ''/blogs/p7''])"

text \<open>A search response with a missing link, a video link and a link that is no URL.\<close>

definition items_demo :: "item list" where
  "items_demo =
     [\<lparr>link = None\<rparr>, \<lparr>link = Some ''https://a.example/x''\<rparr>,
      \<lparr>link = Some ''https://www.youtube.com/watch''\<rparr>, \<lparr>link = Some ''ftp://b.example''\<rparr>,
      \<lparr>link = Some ''https://b.example/y''\<rparr>, \<lparr>link = Some ''https://c.example/z''\<rparr>]"

text \<open>
  Services with no state: the search answers \<open>items_demo\<close>, every page is \<open>page_ref\<close>,
  the generation and the save succeed. With \<open>svc_down\<close> the search fails.
\<close>

definition svc_demo :: "unit services" where
  "svc_demo =
     \<lparr>google_get = (\<lambda>q w. (Inr (Some items_demo), w)),
      page_get = (\<lambda>url w. (Inr page_ref, w)),
      groq_create = (\<lambda>p w. (Inr ''## Better'', w)),
      articles_post = (\<lambda>data w. (Inr True, w))\<rparr>"

definition svc_down :: "unit services" where
  "svc_down = svc_demo\<lparr>google_get := (\<lambda>q w. (Inl (Failure ''503''), w))\<rparr>"

text \<open>Services whose pages cannot be fetched, and services whose pages are all \<open>page_brief\<close>.\<close>

definition svc_offline :: "unit services" where
  "svc_offline = svc_demo\<lparr>page_get := (\<lambda>url w. (Inl (Failure ''timeout''), w))\<rparr>"

definition svc_brief :: "unit services" where
  "svc_brief = svc_demo\<lparr>page_get := (\<lambda>url w. (Inr page_brief, w))\<rparr>"

definition original_demo :: original where
  "original_demo = \<lparr>o_id = ''65a1'', o_title = ''Chatbots'', o_content = ''Old text''\<rparr>"

definition refs_demo :: "reference list" where
  "refs_demo =
     [\<lparr>ref_url = ''https://a.example/x'', ref_content = replicate 600 CHR ''r''\<rparr>,
      \<lparr>ref_url = ''https://b.example/y'', ref_content = replicate 600 CHR ''r''\<rparr>]"

definition data_demo :: articleData where
  "data_demo =
     enhancedArticleData ''65a1'' ''Chatbots'' (''## Better'' @ referencesSection refs_demo)
       [''https://a.example/x'', ''https://b.example/y'']"

text \<open>A store that is the list of its articles, and two articles to save.\<close>

definition list_model :: "article list article_model" where
  "list_model =
     \<lparr>findOne = (\<lambda>s u. Inr (find (\<lambda>a. art_url a = u) s)),
      create = (\<lambda>s a. Inr (s @ [a]))\<rparr>"

definition article_one :: article where
  "article_one =
     \<lparr>art_title = ''One'', art_content = ''First'', art_url = ''https://beyondchats.com/blogs/one/'',
      art_author = ''Unknown'', art_imageUrl = None, art_type = ''original''\<rparr>"

definition article_two :: article where
  "article_two = article_one\<lparr>art_title := ''Two'', art_url := ''https://beyondchats.com/blogs/two/''\<rparr>"

section \<open>Facts about strings\<close>

lemma length_trim_le: "length (trim s) \<le> length s"
proof -
  have "length (trim s) \<le> length (dropWhile is_space s)"
    unfolding trim_def by (metis length_dropWhile_le length_rev)
  also have "\<dots> \<le> length s" by (rule length_dropWhile_le)
  finally show ?thesis .
qed

lemma length_collapse_ws_le: "length (collapse_ws s) \<le> length s"
proof (induction s rule: collapse_ws.induct)
  case 1
  show ?case by simp
next
  case (2 c cs)
  have "length (dropWhile is_space cs) \<le> length cs" by (rule length_dropWhile_le)
  with 2 show ?case by (cases "is_space c") auto
qed

lemma length_finishMainContent: "length (finishMainContent s) \<le> 4000"
  by (simp add: finishMainContent_def substring0_def Let_def)

lemma trim_id:
  assumes "s = [] \<or> (\<not> is_space (hd s) \<and> \<not> is_space (last s))"
  shows "trim s = s"
proof (cases s)
  case Nil
  then show ?thesis by (simp add: trim_def)
next
  case (Cons c cs)
  with assms have h: "\<not> is_space (hd s)" and l: "\<not> is_space (last s)" by auto
  from Cons h have 1: "dropWhile is_space s = s" by simp
  from Cons l have 2: "dropWhile is_space (rev s) = rev s"
    by (metis dropWhile_eq_self_iff hd_rev)
  show ?thesis by (simp add: trim_def 1 2)
qed

lemma collapse_ws_id: "\<forall>c \<in> set s. \<not> is_space c \<Longrightarrow> collapse_ws s = s"
  by (induction s) auto

lemma trim_replicate: "\<not> is_space c \<Longrightarrow> trim (replicate n c) = replicate n c"
  by (rule trim_id) (cases n; simp)

lemma collapse_ws_replicate: "\<not> is_space c \<Longrightarrow> collapse_ws (replicate n c) = replicate n c"
  by (rule collapse_ws_id) simp

lemma letters_no_space:
  "\<not> is_space CHR ''a''" "\<not> is_space CHR ''x''" "\<not> is_space CHR ''y''"
  "\<not> is_space CHR ''z''" "\<not> is_space CHR ''r''"
  by (simp_all add: is_space_def)

lemma first_simps: "first [] = []" "length (first (x # xs)) = 1" "first (x # xs) = [x]"
  by (simp_all add: first_def)

lemmas page_simps =
  no_page_def first_simps textOf_def el_def trim_replicate collapse_ws_replicate
  letters_no_space

section \<open>The selector loop\<close>

text \<open>
  The loop ends with the trimmed text of the first sufficient selector. When there is
  none, it ends with the trimmed text of the last selector that matches, and with the
  value it started from when no selector matches.
\<close>

lemma content_loop_result:
  "content_loop T d sels acc =
     (case find (sufficient T d) sels of
        Some s \<Rightarrow> trimmed d s
      | None \<Rightarrow>
          (if filter (matches d) sels = [] then acc
           else trimmed d (last (filter (matches d) sels))))"
proof (induction sels arbitrary: acc)
  case Nil
  show ?case by simp
next
  case (Cons s sels)
  show ?case
  proof (cases "matches d s")
    case False
    then have e: "first (d s) = []" by (simp add: matches_def first_def)
    from False have ns: "\<not> sufficient T d s" by (simp add: sufficient_def)
    show ?thesis using Cons[of acc] False ns by (simp add: e split: option.splits)
  next
    case True
    then have ne: "length (first (d s)) > 0"
      by (cases "d s") (auto simp: matches_def first_def)
    show ?thesis
    proof (cases "T < length (trimmed d s)")
      case True
      with \<open>matches d s\<close> ne show ?thesis
        by (simp add: sufficient_def trimmed_def Let_def)
    next
      case False
      with \<open>matches d s\<close> have ns: "\<not> sufficient T d s" by (simp add: sufficient_def)
      from False have nl: "\<not> T < length (trim (textOf (first (d s))))"
        by (simp add: trimmed_def)
      have "content_loop T d (s # sels) acc = content_loop T d sels (trimmed d s)"
        using ne nl by (simp add: Let_def trimmed_def)
      then show ?thesis using Cons[of "trimmed d s"] \<open>matches d s\<close> ns
        by (simp split: option.splits)
    qed
  qed
qed

text \<open>
  C1, as the code has it. Each selector that matches overwrites the content with the
  trimmed text of its first element, and the loop ends at the first selector whose text
  is longer than the threshold (500 in the enhancement script, 200 in the harvesting
  scraper); that text is then the content. When no selector is sufficient, the loop
  leaves the text of the last selector that matches, or the value it started from when
  none matches. The enhancement script then takes the trimmed text of the body, when no
  selector matched or that last text is shorter than 500 characters. The harvesting
  scraper has no fallback to the body and goes on with the last text, or with the empty
  string when no selector matched.
\<close>

theorem content_selection:
  "(find (sufficient 500 d) contentSelectors_index = Some s \<longrightarrow>
      selectMainContent d = trimmed d s)
   \<and> (find (sufficient 500 d) contentSelectors_index = None
        \<and> (filter (matches d) contentSelectors_index = []
             \<or> length (trimmed d (last (filter (matches d) contentSelectors_index))) < 500)
       \<longrightarrow> selectMainContent d = trim (textOf (d ''body'')))
   \<and> extractContent d =
     trim (collapse_ws
       (case find (sufficient 200 d) contentSelectors_scraper of
          Some s \<Rightarrow> trimmed d s
        | None \<Rightarrow>
            (let ms = filter (matches d) contentSelectors_scraper in
             if ms = [] then [] else trimmed d (last ms))))
   \<and> content_loop T d sels acc =
     (case find (sufficient T d) sels of
        Some s \<Rightarrow> trimmed d s
      | None \<Rightarrow>
          (let ms = filter (matches d) sels in
           if ms = [] then acc else trimmed d (last ms)))"
proof (intro conjI impI)
  assume f: "find (sufficient 500 d) contentSelectors_index = Some s"
  then have "sufficient 500 d s" by (auto simp: find_Some_iff)
  then have "500 < length (trimmed d s)" by (simp add: sufficient_def)
  then have "trimmed d s \<noteq> []" and "\<not> length (trimmed d s) < 500" by auto
  with f show "selectMainContent d = trimmed d s"
    by (simp add: selectMainContent_def content_loop_result)
next
  assume "find (sufficient 500 d) contentSelectors_index = None
        \<and> (filter (matches d) contentSelectors_index = []
             \<or> length (trimmed d (last (filter (matches d) contentSelectors_index))) < 500)"
  then show "selectMainContent d = trim (textOf (d ''body''))"
    by (auto simp: selectMainContent_def content_loop_result Let_def)
next
  show "extractContent d =
     trim (collapse_ws
       (case find (sufficient 200 d) contentSelectors_scraper of
          Some s \<Rightarrow> trimmed d s
        | None \<Rightarrow>
            (let ms = filter (matches d) contentSelectors_scraper in
             if ms = [] then [] else trimmed d (last ms))))"
    by (simp add: extractContent_def content_loop_result Let_def split: option.splits)
next
  show "content_loop T d sels acc =
     (case find (sufficient T d) sels of
        Some s \<Rightarrow> trimmed d s
      | None \<Rightarrow>
          (let ms = filter (matches d) sels in
           if ms = [] then acc else trimmed d (last ms)))"
    by (simp add: content_loop_result Let_def split: option.splits)
qed

lemma nosuff_page_short: "find (sufficient 200 page_short) contentSelectors_scraper = None"
  by (simp add: sufficient_def matches_def trimmed_def contentSelectors_scraper_def
      page_short_def page_simps)

lemma nosuff_page_short_index: "find (sufficient 500 page_short) contentSelectors_index = None"
  by (simp add: sufficient_def matches_def trimmed_def contentSelectors_index_def
      page_short_def page_simps)

lemma matches_page_short:
  "filter (matches page_short) contentSelectors_index = [''article'', ''.content'']"
  by (simp add: matches_def contentSelectors_index_def page_short_def page_simps)

lemma suff_page_ref: "find (sufficient 500 page_ref) contentSelectors_index = Some ''article''"
  by (simp add: sufficient_def matches_def trimmed_def contentSelectors_index_def
      page_ref_def page_simps)

lemma body_page_short:
  "trim (textOf (page_short ''body'')) =
     ''Title'' @ replicate 150 CHR ''x'' @ replicate 120 CHR ''y'' @ replicate 30 CHR ''z''"
proof -
  have "textOf (page_short ''body'') =
     ''Title'' @ replicate 150 CHR ''x'' @ replicate 120 CHR ''y'' @ replicate 30 CHR ''z''"
    by (simp add: page_short_def page_simps)
  moreover have "trim (''Title'' @ replicate 150 CHR ''x'' @ replicate 120 CHR ''y''
                       @ replicate 30 CHR ''z'') =
     ''Title'' @ replicate 150 CHR ''x'' @ replicate 120 CHR ''y'' @ replicate 30 CHR ''z''"
    by (rule trim_id) (simp add: is_space_def)
  ultimately show ?thesis by simp
qed

lemma extractContent_page_short: "extractContent page_short = replicate 120 CHR ''y''"
  by (simp add: extractContent_def contentSelectors_scraper_def page_short_def page_simps)

theorem content_selection_witness:
  "selectMainContent page_ref = replicate 600 CHR ''r''
   \<and> selectMainContent page_short =
       ''Title'' @ replicate 150 CHR ''x'' @ replicate 120 CHR ''y'' @ replicate 30 CHR ''z''
   \<and> extractContent page_short = replicate 120 CHR ''y''"
proof -
  from content_selection [of page_ref "''article''"] suff_page_ref
  have "selectMainContent page_ref = trimmed page_ref ''article''" by blast
  then have 1: "selectMainContent page_ref = replicate 600 CHR ''r''"
    by (simp add: trimmed_def page_ref_def page_simps)
  have "length (trimmed page_short (last (filter (matches page_short) contentSelectors_index))) < 500"
    by (simp only: matches_page_short) (simp add: trimmed_def page_short_def page_simps)
  with content_selection [of page_short] nosuff_page_short_index
  have "selectMainContent page_short = trim (textOf (page_short ''body''))" by blast
  then have 2: "selectMainContent page_short =
       ''Title'' @ replicate 150 CHR ''x'' @ replicate 120 CHR ''y'' @ replicate 30 CHR ''z''"
    by (simp only: body_page_short)
  from 1 2 show ?thesis by (simp add: extractContent_page_short)
qed

text \<open>
  C1, as the claim states it, fails for the harvesting scraper. On \<open>page_short\<close> no
  selector is sufficient; the first non-empty text is the 150 letters of \<open>article\<close> and
  the text of the body has 305 characters, but the content is the 120 letters of
  \<open>.content\<close>, the last selector that matches, and the article is returned with it.
\<close>

theorem content_selection_counterexample:
  "find (sufficient 200 page_short) contentSelectors_scraper = None
   \<and> trimmed page_short ''article'' = replicate 150 CHR ''x''
   \<and> trim (textOf (page_short ''body'')) =
       ''Title'' @ replicate 150 CHR ''x'' @ replicate 120 CHR ''y'' @ replicate 30 CHR ''z''
   \<and> extractContent page_short = replicate 120 CHR ''y''
   \<and> map_option art_content
        (scrapeArticleContent ''https://beyondchats.com/blogs/a/'' (Inr page_short))
       = Some (replicate 120 CHR ''y'')"
proof -
  have "trimmed page_short ''article'' = replicate 150 CHR ''x''"
    by (simp add: trimmed_def page_short_def page_simps)
  moreover have "extractTitle page_short = ''Title''"
    by (simp add: extractTitle_def titleSelectors_def page_short_def page_simps
        trim_def is_space_def)
  then have "map_option art_content
        (scrapeArticleContent ''https://beyondchats.com/blogs/a/'' (Inr page_short))
       = Some (replicate 120 CHR ''y'')"
    by (simp add: scrapeArticleContent_def extractContent_page_short)
  ultimately show ?thesis
    by (simp only: nosuff_page_short body_page_short extractContent_page_short)
qed

section \<open>The truncation cap\<close>

text \<open>
  C2, as the code has it. The scrape of the enhancement script never returns more than
  4000 characters, whatever the fetch produced. The harvesting scraper does not cut its
  content.
\<close>

theorem scrapeContent_capped: "length (scrapeContent response) \<le> 4000"
  by (cases response) (simp_all add: scrapeContent_def length_finishMainContent)

theorem scrapeContent_capped_witness:
  "length (scrapeContent (Inr page_brief)) \<le> 4000 \<and> length (scrapeContent (Inl (Failure ''timeout''))) \<le> 4000"
  using scrapeContent_capped [of "Inr page_brief"]
    scrapeContent_capped [of "Inl (Failure ''timeout'')"]
  by simp

lemma extractContent_page_long: "extractContent page_long = replicate 4001 CHR ''a''"
  by (simp add: extractContent_def contentSelectors_scraper_def page_long_def page_simps)

lemma extractTitle_page_long: "extractTitle page_long = ''Title''"
  by (simp add: extractTitle_def titleSelectors_def page_long_def page_simps
      trim_def is_space_def)

text \<open>
  C2, as the claim states it, fails for the harvesting scraper: on \<open>page_long\<close> it returns
  an article whose content has 4001 characters.
\<close>

theorem truncation_counterexample:
  "(case scrapeArticleContent ''https://beyondchats.com/blogs/a/'' (Inr page_long) of
      None \<Rightarrow> False
    | Some a \<Rightarrow> 4000 < length (art_content a))"
  by (simp add: scrapeArticleContent_def extractContent_page_long extractTitle_page_long)

section \<open>The search\<close>

lemma validLink_Some:
  "link it = Some url \<Longrightarrow>
   validLink it = (url \<noteq> [] \<and> startsWith url ''http'' \<and> \<not> includesStr url ''youtube.com''
                   \<and> \<not> includesStr url ''facebook.com'')"
  by (simp add: validLink_def)

lemma collectLinks_step:
  "collectLinks (it # items) acc =
     (if validLink it \<and> length acc < 2 then collectLinks items (acc @ [the (link it)])
      else collectLinks items acc)"
proof (cases "link it")
  case None
  then show ?thesis by (simp add: validLink_def)
next
  case (Some url)
  from validLink_Some [OF Some] Some show ?thesis by (simp add: Let_def)
qed

lemma collectLinks_result:
  "collectLinks items acc =
     acc @ take (2 - length acc) (List.map_filter link (filter validLink items))"
proof (induction items arbitrary: acc)
  case Nil
  show ?case by (simp add: List.map_filter_simps)
next
  case (Cons it items)
  show ?case
  proof (cases "validLink it")
    case False
    then show ?thesis using Cons[of acc] by (simp only: collectLinks_step) simp
  next
    case True
    then obtain url where url: "link it = Some url"
      by (cases "link it") (auto simp: validLink_def)
    show ?thesis
    proof (cases "length acc < 2")
      case l: True
      then have e: "2 - length acc = Suc (2 - (length acc + 1))" by arith
      have "collectLinks (it # items) acc = collectLinks items (acc @ [url])"
        using True l url by (simp only: collectLinks_step) simp
      also have "\<dots> = (acc @ [url]) @ take (2 - length (acc @ [url]))
                         (List.map_filter link (filter validLink items))"
        by (rule Cons)
      finally show ?thesis using True url e by (simp add: List.map_filter_simps)
    next
      case l: False
      have "collectLinks (it # items) acc = collectLinks items acc"
        using l by (simp only: collectLinks_step) simp
      with l show ?thesis using Cons[of acc] by simp
    qed
  qed
qed

lemma in_valid_links:
  assumes "u \<in> set (List.map_filter link (filter validLink items))"
  shows "u \<noteq> [] \<and> startsWith u ''http'' \<and> \<not> includesStr u ''youtube.com''
         \<and> \<not> includesStr u ''facebook.com''"
proof -
  from assms obtain it where "validLink it" and "link it = Some u"
    by (auto simp: List.map_filter_def)
  then show ?thesis by (simp add: validLink_def)
qed

text \<open>
  C3. Whatever the search API answered, the search returns at most two URLs; each of them
  is present, starts with \<open>http\<close> and contains neither \<open>youtube.com\<close> nor
  \<open>facebook.com\<close>; they are the first two acceptable links of the response, in the
  order of the response; and when the call fails the result is empty.
\<close>

theorem searchLinks_result:
  "length (searchLinks response) \<le> 2
   \<and> (\<forall>u \<in> set (searchLinks response).
         u \<noteq> [] \<and> startsWith u ''http'' \<and> \<not> includesStr u ''youtube.com''
         \<and> \<not> includesStr u ''facebook.com'')
   \<and> searchLinks (Inl error) = []
   \<and> searchLinks (Inr (Some items)) = take 2 (List.map_filter link (filter validLink items))"
proof (intro conjI ballI)
  show "length (searchLinks response) \<le> 2"
    by (auto simp: searchLinks_def collectLinks_result split: sum.splits option.splits)
next
  fix u assume "u \<in> set (searchLinks response)"
  then obtain items where "u \<in> set (take 2 (List.map_filter link (filter validLink items)))"
    by (auto simp: searchLinks_def collectLinks_result split: sum.splits option.splits)
  then have "u \<in> set (List.map_filter link (filter validLink items))" by (rule in_set_takeD)
  then have *: "u \<noteq> [] \<and> startsWith u ''http'' \<and> \<not> includesStr u ''youtube.com''
         \<and> \<not> includesStr u ''facebook.com''" by (rule in_valid_links)
  from * show "u \<noteq> []" by simp
  from * show "startsWith u ''http''" by simp
  from * show "\<not> includesStr u ''youtube.com''" by simp
  from * show "\<not> includesStr u ''facebook.com''" by simp
next
  show "searchLinks (Inl error) = []" by (simp add: searchLinks_def)
next
  show "searchLinks (Inr (Some items)) = take 2 (List.map_filter link (filter validLink items))"
    by (simp add: searchLinks_def collectLinks_result)
qed

lemma valid_demo:
  "filter validLink items_demo =
     [\<lparr>link = Some ''https://a.example/x''\<rparr>, \<lparr>link = Some ''https://b.example/y''\<rparr>,
      \<lparr>link = Some ''https://c.example/z''\<rparr>]"
  by (simp add: items_demo_def validLink_def startsWith_def includesStr_def sublist_code prefix_code)

theorem searchLinks_result_witness:
  "searchLinks (Inr (Some items_demo)) = [''https://a.example/x'', ''https://b.example/y'']
   \<and> length (searchLinks (Inr (Some items_demo))) \<le> 2
   \<and> searchLinks (Inl (Failure ''503'')) = []"
  using searchLinks_result [of "Inr (Some items_demo)" "Failure ''503''" items_demo]
  by (simp add: valid_demo List.map_filter_simps)

section \<open>Discarded candidates\<close>

lemma trimmed_unmatched: "\<not> matches d s \<Longrightarrow> trimmed d s = []"
  by (simp add: matches_def trimmed_def first_def textOf_def trim_def)

lemma text_loop_result:
  "text_loop d sels acc =
     (case find (\<lambda>s. trimmed d s \<noteq> []) sels of
        Some s \<Rightarrow> trimmed d s
      | None \<Rightarrow> (if filter (matches d) sels = [] then acc else []))"
proof (induction sels arbitrary: acc)
  case Nil
  show ?case by simp
next
  case (Cons s sels)
  show ?case
  proof (cases "matches d s")
    case False
    then have e: "first (d s) = []" by (simp add: matches_def first_def)
    from False have t: "trimmed d s = []" by (rule trimmed_unmatched)
    show ?thesis using Cons[of acc] False t by (simp add: e split: option.splits)
  next
    case True
    then have ne: "length (first (d s)) > 0"
      by (cases "d s") (auto simp: matches_def first_def)
    show ?thesis
    proof (cases "trimmed d s = []")
      case False
      then have "trim (textOf (first (d s))) \<noteq> []" by (simp add: trimmed_def)
      with ne have "text_loop d (s # sels) acc = trimmed d s"
        by (simp add: Let_def trimmed_def)
      with False show ?thesis by simp
    next
      case e: True
      then have "trim (textOf (first (d s))) = []" by (simp add: trimmed_def)
      with ne have "text_loop d (s # sels) acc = text_loop d sels []"
        by (simp add: Let_def)
      then show ?thesis using Cons[of "[]"] True e by (simp split: option.splits)
    qed
  qed
qed

lemma extractTitle_empty_iff:
  "extractTitle d = [] \<longleftrightarrow> (\<forall>s \<in> set titleSelectors. trimmed d s = [])"
proof (cases "find (\<lambda>s. trimmed d s \<noteq> []) titleSelectors")
  case None
  then have "extractTitle d = []" by (simp add: extractTitle_def text_loop_result)
  moreover from None have "\<forall>s \<in> set titleSelectors. trimmed d s = []"
    by (auto simp: find_None_iff)
  ultimately show ?thesis by simp
next
  case (Some s)
  then have "s \<in> set titleSelectors" and "trimmed d s \<noteq> []"
    by (auto simp: find_Some_iff)
  with Some show ?thesis by (auto simp: extractTitle_def text_loop_result)
qed

text \<open>
  C6. The harvesting scraper returns \<open>null\<close> exactly when the render failed, no title
  was found or the extracted content has fewer than 100 characters; the title is missing
  when no title selector gives a non-empty text. An article it does return has a title,
  at least 100 characters of content and the URL it was asked for, so it is never a
  partial record.
\<close>

theorem scrapeArticleContent_discards:
  "(scrapeArticleContent url page = None \<longleftrightarrow>
      (case page of
         Inl error \<Rightarrow> True
       | Inr d \<Rightarrow> extractTitle d = [] \<or> length (extractContent d) < 100))
   \<and> (extractTitle d = [] \<longleftrightarrow> (\<forall>s \<in> set titleSelectors. trimmed d s = []))
   \<and> (\<forall>a. scrapeArticleContent url page = Some a \<longrightarrow>
          art_title a \<noteq> [] \<and> 100 \<le> length (art_content a) \<and> art_url a = url)"
proof (intro conjI allI impI)
  show "scrapeArticleContent url page = None \<longleftrightarrow>
      (case page of
         Inl error \<Rightarrow> True
       | Inr d \<Rightarrow> extractTitle d = [] \<or> length (extractContent d) < 100)"
    by (cases page) (auto simp: scrapeArticleContent_def Let_def)
next
  show "extractTitle d = [] \<longleftrightarrow> (\<forall>s \<in> set titleSelectors. trimmed d s = [])"
    by (rule extractTitle_empty_iff)
next
  fix a assume "scrapeArticleContent url page = Some a"
  then have "art_title a \<noteq> [] \<and> 100 \<le> length (art_content a) \<and> art_url a = url"
    by (cases page) (auto simp: scrapeArticleContent_def Let_def split: if_splits)
  then show "art_title a \<noteq> []" "100 \<le> length (art_content a)" "art_url a = url"
    by simp_all
qed

lemma extractTitle_page_untitled: "extractTitle page_untitled = []"
  by (simp add: extractTitle_def titleSelectors_def page_untitled_def page_simps)

lemma extractContent_page_thin: "extractContent page_thin = replicate 99 CHR ''a''"
  by (simp add: extractContent_def contentSelectors_scraper_def page_thin_def page_simps)

theorem scrapeArticleContent_discards_witness:
  "scrapeArticleContent ''https://beyondchats.com/blogs/a/'' (Inr page_untitled) = None
   \<and> scrapeArticleContent ''https://beyondchats.com/blogs/a/'' (Inr page_thin) = None
   \<and> scrapeArticleContent ''https://beyondchats.com/blogs/a/'' (Inl (Failure ''timeout'')) = None
   \<and> map_option art_title (scrapeArticleContent ''https://beyondchats.com/blogs/a/'' (Inr page_long))
       = Some ''Title''"
proof -
  let ?u = "''https://beyondchats.com/blogs/a/''"
  have 1: "scrapeArticleContent ?u (Inr page_untitled) = None"
    using scrapeArticleContent_discards [of ?u "Inr page_untitled"]
    by (simp add: extractTitle_page_untitled)
  have 2: "scrapeArticleContent ?u (Inr page_thin) = None"
    using scrapeArticleContent_discards [of ?u "Inr page_thin"]
    by (simp add: extractContent_page_thin)
  have 3: "scrapeArticleContent ?u (Inl (Failure ''timeout'')) = None"
    using scrapeArticleContent_discards [of ?u "Inl (Failure ''timeout'')"]
    by simp
  have 4: "map_option art_title (scrapeArticleContent ?u (Inr page_long)) = Some ''Title''"
    by (simp add: scrapeArticleContent_def extractContent_page_long extractTitle_page_long)
  from 1 2 3 4 show ?thesis by simp
qed

section \<open>The last page\<close>

lemma lastPage_each_fold:
  "lastPage_each anchors n = fold max (map parseInt (List.map_filter pageDigit anchors)) n"
proof (induction anchors arbitrary: n)
  case Nil
  show ?case by (simp add: List.map_filter_simps)
next
  case (Cons a anchors)
  show ?case
  proof (cases "pageDigit a")
    case None
    then have "lastPage_each (a # anchors) n = lastPage_each anchors n"
      by (auto simp: pageDigit_def split: option.splits if_splits)
    with None Cons show ?thesis by (simp add: List.map_filter_simps)
  next
    case (Some ds)
    then have "lastPage_each (a # anchors) n = lastPage_each anchors (max (parseInt ds) n)"
      by (auto simp: pageDigit_def Let_def max_def split: option.splits if_splits)
    with Some Cons show ?thesis by (simp add: List.map_filter_simps)
  qed
qed

lemma parseInt_exact: "decimal ds < 2 ^ 53 \<Longrightarrow> parseInt ds = enat (decimal ds)"
  by (simp add: parseInt_def toNumber_def)

lemma Max_enat: "xs \<noteq> [] \<Longrightarrow> Max (set (map enat xs)) = enat (Max (set xs))"
proof -
  assume "xs \<noteq> []"
  have "mono enat" by (rule monoI) simp
  from mono_Max_commute [OF this, of "set xs"] \<open>xs \<noteq> []\<close>
  show ?thesis by simp
qed

text \<open>
  C7, as the code has it. The probe returns the largest of 1 and the page numbers of the
  anchors whose href matches the pattern, as \<open>parseInt\<close> reads them. When every such page
  number is below \<open>2 ^ 53\<close>, that is the largest of 1 and the page numbers themselves. It
  returns 1 when the render fails. So it returns 1 when no anchor matches, and 5 for the
  links to the pages 2, 5 and 3.
\<close>

theorem findLastPage_result:
  "findLastPage (Inr d) = Max (set (1 # map parseInt (pageDigits d)))
   \<and> ((\<forall>ds \<in> set (pageDigits d). decimal ds < 2 ^ 53) \<longrightarrow>
        findLastPage (Inr d) = enat (Max (set (1 # map decimal (pageDigits d)))))
   \<and> findLastPage (Inl error) = 1"
proof (intro conjI impI)
  have "Max (set (1 # map parseInt (pageDigits d))) = fold max (map parseInt (pageDigits d)) 1"
    by (rule Max.set_eq_fold)
  then show g: "findLastPage (Inr d) = Max (set (1 # map parseInt (pageDigits d)))"
    by (simp add: findLastPage_def pageDigits_def lastPage_each_fold)
  show "findLastPage (Inl error) = 1" by (simp add: findLastPage_def)
  assume b: "\<forall>ds \<in> set (pageDigits d). decimal ds < 2 ^ 53"
  then have "map parseInt (pageDigits d) = map enat (map decimal (pageDigits d))"
    by (simp add: parseInt_exact)
  then have "1 # map parseInt (pageDigits d) = map enat (1 # map decimal (pageDigits d))"
    by (simp add: one_enat_def)
  then have "Max (set (1 # map parseInt (pageDigits d)))
             = enat (Max (set (1 # map decimal (pageDigits d))))"
    using Max_enat [of "1 # map decimal (pageDigits d)"] by simp
  with g show "findLastPage (Inr d) = enat (Max (set (1 # map decimal (pageDigits d))))"
    by simp
qed

lemmas digit_simps =
  pageDigits_def pageDigit_def no_page_def anchor_def el_def List.map_filter_simps
  startsWith_def prefix_code is_digit_def

lemma pageDigits_page_three: "pageDigits page_three = [''2'', ''5'', ''3'']"
  by (simp add: page_three_def digit_simps)

lemma pageDigits_page_zero: "pageDigits page_zero = [''0'']"
  by (simp add: page_zero_def digit_simps)

lemma pageDigits_page_big: "pageDigits page_big = [''9007199254740993'']"
  by (simp add: page_big_def digit_simps)

lemma decimal_big: "decimal ''9007199254740993'' = 9007199254740993"
  by (simp add: decimal_def digit_val_def)

lemma bitlen_bounds: "2 ^ k \<le> n \<Longrightarrow> n < 2 ^ Suc k \<Longrightarrow> bitlen n = Suc k"
proof (induction k arbitrary: n)
  case 0
  then have "n = 1" by simp
  then show ?case by (simp add: bitlen.simps [of "Suc 0"] bitlen.simps [of 0])
next
  case (Suc k)
  then have "2 ^ k \<le> n div 2" and "n div 2 < 2 ^ Suc k" by auto
  then have "bitlen (n div 2) = Suc k" by (rule Suc.IH)
  moreover from Suc.prems have "n \<noteq> 0" by auto
  ultimately show ?case by (subst bitlen.simps) simp
qed

lemma bitlen_big: "bitlen 9007199254740993 = 54"
proof -
  have "bitlen 9007199254740993 = Suc 53" by (rule bitlen_bounds) simp_all
  then show ?thesis by simp
qed

lemma parseInt_big: "parseInt ''9007199254740993'' = enat 9007199254740992"
  by (simp add: parseInt_def decimal_big toNumber_def bitlen_big Let_def)

theorem findLastPage_result_witness:
  "findLastPage (Inr page_three) = enat 5 \<and> findLastPage (Inr no_page) = enat 1
   \<and> findLastPage (Inl (Failure ''timeout'')) = enat 1"
proof -
  have "\<forall>ds \<in> set (pageDigits page_three). decimal ds < 2 ^ 53"
    by (simp add: pageDigits_page_three decimal_def digit_val_def)
  with findLastPage_result [of page_three "Failure ''timeout''"]
  have "findLastPage (Inr page_three) = enat (Max (set (1 # map decimal (pageDigits page_three))))"
    and 3: "findLastPage (Inl (Failure ''timeout'')) = 1"
    by blast+
  then have 1: "findLastPage (Inr page_three) = enat 5"
    by (simp add: pageDigits_page_three decimal_def digit_val_def)
  have "pageDigits no_page = []" by (simp add: digit_simps)
  with findLastPage_result [of no_page "Failure ''timeout''"]
  have 2: "findLastPage (Inr no_page) = enat 1" by (simp add: one_enat_def)
  from 1 2 3 show ?thesis by (simp add: one_enat_def)
qed

text \<open>
  C7, as the claim states it, fails. On \<open>page_zero\<close> the only page number in a matching
  href is 0, so the maximum that appears is 0, and the probe returns 1. On \<open>page_big\<close>
  the only page number is \<open>2 ^ 53 + 1\<close>, and the probe returns \<open>2 ^ 53\<close>, the number that
  \<open>parseInt\<close> gives for it.
\<close>

theorem findLastPage_counterexample:
  "pageDigits page_zero = [''0''] \<and> decimal ''0'' = 0 \<and> findLastPage (Inr page_zero) = enat 1
   \<and> pageDigits page_big = [''9007199254740993'']
   \<and> decimal ''9007199254740993'' = 9007199254740993
   \<and> findLastPage (Inr page_big) = enat 9007199254740992"
proof -
  have z: "parseInt ''0'' = enat 0"
    by (simp add: parseInt_def toNumber_def decimal_def digit_val_def)
  have "findLastPage (Inr page_zero) = Max (set (1 # map parseInt (pageDigits page_zero)))"
    by (simp only: Max.set_eq_fold) (simp add: findLastPage_def pageDigits_def lastPage_each_fold)
  then have 1: "findLastPage (Inr page_zero) = enat 1"
    by (simp add: pageDigits_page_zero z one_enat_def)
  have "findLastPage (Inr page_big) = fold max (map parseInt (pageDigits page_big)) 1"
    by (simp add: findLastPage_def pageDigits_def lastPage_each_fold)
  then have 2: "findLastPage (Inr page_big) = enat 9007199254740992"
    by (simp add: pageDigits_page_big parseInt_big one_enat_def)
  from 1 2 show ?thesis
    by (simp add: pageDigits_page_zero pageDigits_page_big decimal_big) (simp add: decimal_def digit_val_def)
qed

section \<open>The article links\<close>

lemma includesStr_char: "includesStr s [c] \<longleftrightarrow> c \<in> set s"
proof
  assume "includesStr s [c]"
  then obtain ps ss where "s = ps @ [c] @ ss" by (auto simp: includesStr_def sublist_def)
  then show "c \<in> set s" by simp
next
  assume "c \<in> set s"
  then obtain ps ss where "s = ps @ c # ss" by (auto dest: split_list)
  then have "s = ps @ [c] @ ss" by simp
  then show "includesStr s [c]" unfolding includesStr_def sublist_def by blast
qed

lemma includesStr_append: "includesStr s t \<Longrightarrow> includesStr (p @ s) t"
proof -
  assume "includesStr s t"
  then obtain ps ss where "s = ps @ t @ ss" by (auto simp: includesStr_def sublist_def)
  then have "p @ s = (p @ ps) @ t @ ss" by simp
  then show ?thesis unfolding includesStr_def sublist_def by blast
qed

lemma resolveHref_ok:
  assumes "includesStr h ''blog''" and "\<not> includesStr h ''#''"
  shows "includesStr (resolveHref h) ''blog'' \<and> \<not> includesStr (resolveHref h) ''#''
         \<and> startsWith (resolveHref h) ''http''"
proof (cases "startsWith h ''http''")
  case True
  with assms show ?thesis by (simp add: resolveHref_def)
next
  case False
  from assms(2) have n: "CHR ''#'' \<notin> set h" by (simp add: includesStr_char)
  show ?thesis
  proof (cases "startsWith h ''/''")
    case s: True
    with False have r: "resolveHref h = ''https://beyondchats.com'' @ h"
      by (simp add: resolveHref_def)
    have "includesStr (''https://beyondchats.com'' @ h) ''blog''"
      using assms(1) by (rule includesStr_append)
    moreover have "\<not> includesStr (''https://beyondchats.com'' @ h) ''#''"
      using n by (simp add: includesStr_char)
    moreover have "startsWith (''https://beyondchats.com'' @ h) ''http''"
      by (simp add: startsWith_def)
    ultimately show ?thesis by (simp add: r)
  next
    case s: False
    with False have r: "resolveHref h = ''https://beyondchats.com/'' @ h"
      by (simp add: resolveHref_def)
    have "includesStr (''https://beyondchats.com/'' @ h) ''blog''"
      using assms(1) by (rule includesStr_append)
    moreover have "\<not> includesStr (''https://beyondchats.com/'' @ h) ''#''"
      using n by (simp add: includesStr_char)
    moreover have "startsWith (''https://beyondchats.com/'' @ h) ''http''"
      by (simp add: startsWith_def)
    ultimately show ?thesis by (simp add: r)
  qed
qed

lemma okHrefs_mono: "set hs \<subseteq> set hs' \<Longrightarrow> okHrefs hs \<subseteq> okHrefs hs'"
  by (auto simp: okHrefs_def)

lemma links_each_step:
  "links_each (a # anchors) acc =
     (case attr a ''href'' of
        None \<Rightarrow> links_each anchors acc
      | Some h \<Rightarrow>
          if h \<noteq> [] \<and> includesStr h ''blog'' \<and> \<not> includesStr h ''#''
             \<and> resolveHref h \<notin> set acc
          then links_each anchors (acc @ [resolveHref h])
          else links_each anchors acc)"
  by (simp add: Let_def split: option.splits)

lemma links_each_distinct: "distinct acc \<Longrightarrow> distinct (links_each anchors acc)"
proof (induction anchors arbitrary: acc)
  case Nil
  then show ?case by simp
next
  case (Cons a anchors)
  then show ?case by (simp only: links_each_step) (auto split: option.splits)
qed

lemma links_each_set:
  "set (links_each anchors acc)
     \<subseteq> set acc \<union> okHrefs (List.map_filter (\<lambda>a. attr a ''href'') anchors)"
proof (induction anchors arbitrary: acc)
  case Nil
  show ?case by simp
next
  case (Cons a anchors)
  let ?hs = "List.map_filter (\<lambda>a. attr a ''href'') anchors"
  show ?case
  proof (cases "attr a ''href''")
    case None
    then have "links_each (a # anchors) acc = links_each anchors acc"
      by (simp only: links_each_step) simp
    moreover from None have "List.map_filter (\<lambda>a. attr a ''href'') (a # anchors) = ?hs"
      by (simp add: List.map_filter_simps)
    ultimately show ?thesis using Cons[of acc] by simp
  next
    case (Some h)
    then have hs: "List.map_filter (\<lambda>a. attr a ''href'') (a # anchors) = h # ?hs"
      by (simp add: List.map_filter_simps)
    have sub: "okHrefs ?hs \<subseteq> okHrefs (h # ?hs)" by (rule okHrefs_mono) auto
    show ?thesis
    proof (cases "h \<noteq> [] \<and> includesStr h ''blog'' \<and> \<not> includesStr h ''#''
             \<and> resolveHref h \<notin> set acc")
      case True
      with Some have "links_each (a # anchors) acc = links_each anchors (acc @ [resolveHref h])"
        by (simp only: links_each_step) simp
      moreover from True have "resolveHref h \<in> okHrefs (h # ?hs)"
        by (auto simp: okHrefs_def)
      ultimately show ?thesis using Cons[of "acc @ [resolveHref h]"] sub hs by auto
    next
      case False
      with Some have "links_each (a # anchors) acc = links_each anchors acc"
        by (simp only: links_each_step) auto
      then show ?thesis using Cons[of acc] sub hs by auto
    qed
  qed
qed

lemma links_loop_distinct: "distinct acc \<Longrightarrow> distinct (links_loop d sels acc)"
  by (induction sels arbitrary: acc) (auto simp: Let_def links_each_distinct)

lemma links_loop_set: "set (links_loop d sels acc) \<subseteq> set acc \<union> okHrefs (hrefsOf d sels)"
proof (induction sels arbitrary: acc)
  case Nil
  show ?case by simp
next
  case (Cons sel sels)
  let ?acc' = "links_each (d sel) acc"
  have 1: "set ?acc' \<subseteq> set acc \<union> okHrefs (hrefsOf d [sel])"
    using links_each_set [of "d sel" acc] by (simp add: hrefsOf_def)
  have 2: "okHrefs (hrefsOf d [sel]) \<subseteq> okHrefs (hrefsOf d (sel # sels))"
    by (rule okHrefs_mono) (auto simp: hrefsOf_def)
  have 3: "okHrefs (hrefsOf d sels) \<subseteq> okHrefs (hrefsOf d (sel # sels))"
    by (rule okHrefs_mono) (auto simp: hrefsOf_def)
  show ?case
  proof (cases "5 \<le> length ?acc'")
    case True
    then have "links_loop d (sel # sels) acc = ?acc'" by (simp add: Let_def)
    with 1 2 show ?thesis by auto
  next
    case False
    then have "links_loop d (sel # sels) acc = links_loop d sels ?acc'" by (simp add: Let_def)
    with Cons[of ?acc'] 1 2 3 show ?thesis by auto
  qed
qed

lemma links_loop_stop:
  "pre \<noteq> [] \<Longrightarrow> 5 \<le> length (links_loop d pre acc) \<Longrightarrow>
   links_loop d (pre @ post) acc = links_loop d pre acc"
proof (induction pre arbitrary: acc)
  case Nil
  then show ?case by simp
next
  case (Cons sel pre)
  let ?acc' = "links_each (d sel) acc"
  show ?case
  proof (cases "5 \<le> length ?acc'")
    case True
    then show ?thesis by (simp add: Let_def)
  next
    case False
    with Cons.prems have l: "5 \<le> length (links_loop d pre ?acc')" by (simp add: Let_def)
    with False have "pre \<noteq> []" by auto
    from Cons.IH [OF this l] False show ?thesis by (simp add: Let_def)
  qed
qed

text \<open>
  C8. Whatever the render produced, the harvester returns at most five links, no link
  twice. Each link contains \<open>blog\<close>, contains no \<open>#\<close> and starts with \<open>http\<close>; it is
  the href of an anchor that one of the selectors selects, with the marker and without
  \<open>#\<close>, put under the site's origin when it does not start with \<open>http\<close>. A failed render
  gives no link. Once five links are there after a selector, the selectors after it are
  not used.
\<close>

theorem scrapeArticleLinks_result:
  "length (scrapeArticleLinks page) \<le> 5
   \<and> distinct (scrapeArticleLinks page)
   \<and> (\<forall>u \<in> set (scrapeArticleLinks page).
         includesStr u ''blog'' \<and> \<not> includesStr u ''#'' \<and> startsWith u ''http'')
   \<and> (\<forall>u \<in> set (scrapeArticleLinks (Inr d)).
         \<exists>h \<in> set (hrefsOf d selectors).
           includesStr h ''blog'' \<and> \<not> includesStr h ''#'' \<and> u = resolveHref h)
   \<and> scrapeArticleLinks (Inl error) = []
   \<and> (pre \<noteq> [] \<and> 5 \<le> length (links_loop d pre acc) \<longrightarrow>
        links_loop d (pre @ post) acc = links_loop d pre acc)"
proof -
  have len: "length (scrapeArticleLinks page) \<le> 5"
    by (cases page) (simp_all add: scrapeArticleLinks_def)
  have dist: "distinct (scrapeArticleLinks page)"
    by (cases page) (simp_all add: scrapeArticleLinks_def links_loop_distinct)
  have src: "\<exists>h \<in> set (hrefsOf d' selectors).
               includesStr h ''blog'' \<and> \<not> includesStr h ''#'' \<and> u = resolveHref h"
    if "u \<in> set (scrapeArticleLinks (Inr d'))" for u d'
  proof -
    from that have "u \<in> set (links_loop d' selectors [])"
      by (auto simp: scrapeArticleLinks_def dest: in_set_takeD)
    with links_loop_set [of d' selectors "[]"] have "u \<in> okHrefs (hrefsOf d' selectors)"
      by auto
    then show ?thesis by (auto simp: okHrefs_def)
  qed
  have ok: "includesStr u ''blog'' \<and> \<not> includesStr u ''#'' \<and> startsWith u ''http''"
    if "u \<in> set (scrapeArticleLinks page)" for u
  proof (cases page)
    case (Inl e)
    with that show ?thesis by (simp add: scrapeArticleLinks_def)
  next
    case (Inr d')
    with that src [of u d'] obtain h where "includesStr h ''blog''" "\<not> includesStr h ''#''"
      "u = resolveHref h" by auto
    then show ?thesis using resolveHref_ok [of h] by simp
  qed
  have err: "scrapeArticleLinks (Inl error) = []" by (simp add: scrapeArticleLinks_def)
  from len dist ok src err links_loop_stop [of pre d acc post] show ?thesis by blast
qed

lemma links_page_links:
  "scrapeArticleLinks (Inr page_links) =
     [''https://beyondchats.com/blogs/one/'', ''https://beyondchats.com/blogs/two/'',
      ''https://beyondchats.com/blogs/three/'']"
  by (simp add: scrapeArticleLinks_def selectors_def page_links_def no_page_def anchor_def
      resolveHref_def startsWith_def includesStr_def sublist_code prefix_code)


lemma links_page_many:
  "links_loop page_many [''article a''] [] =
     [''https://beyondchats.com/blogs/p1'', ''https://beyondchats.com/blogs/p2'',
      ''https://beyondchats.com/blogs/p3'', ''https://beyondchats.com/blogs/p4'',
      ''https://beyondchats.com/blogs/p5'', ''https://beyondchats.com/blogs/p6'']"
  by (simp add: page_many_def no_page_def anchor_def
      resolveHref_def startsWith_def includesStr_def sublist_code prefix_code)

theorem scrapeArticleLinks_result_witness:
  "scrapeArticleLinks (Inr page_links) =
     [''https://beyondchats.com/blogs/one/'', ''https://beyondchats.com/blogs/two/'',
      ''https://beyondchats.com/blogs/three/'']
   \<and> length (scrapeArticleLinks (Inr page_links)) \<le> 5
   \<and> distinct (scrapeArticleLinks (Inr page_links))
   \<and> scrapeArticleLinks (Inl (Failure ''timeout'')) = []
   \<and> links_loop page_many selectors [] = links_loop page_many [''article a''] []"
proof -
  have s: "selectors = [''article a''] @ tl selectors" by (simp add: selectors_def)
  have l: "5 \<le> length (links_loop page_many [''article a''] [])"
    by (simp only: links_page_many) simp
  have "[''article a''] \<noteq> [] \<and> 5 \<le> length (links_loop page_many [''article a''] []) \<longrightarrow>
        links_loop page_many ([''article a''] @ tl selectors) [] =
        links_loop page_many [''article a''] []"
    using scrapeArticleLinks_result
      [of "Inr page_links" page_many "Failure ''timeout''" "[''article a'']" "[]" "tl selectors"]
    by blast
  with l have "links_loop page_many ([''article a''] @ tl selectors) [] =
        links_loop page_many [''article a''] []"
    by blast
  with s have "links_loop page_many selectors [] = links_loop page_many [''article a''] []"
    by simp
  moreover have "length (scrapeArticleLinks (Inr page_links)) \<le> 5
      \<and> distinct (scrapeArticleLinks (Inr page_links))
      \<and> scrapeArticleLinks (Inl (Failure ''timeout'')) = []"
    using scrapeArticleLinks_result
      [of "Inr page_links" page_many "Failure ''timeout''" "[''article a'']" "[]" "tl selectors"]
    by blast
  ultimately show ?thesis by (simp add: links_page_links)
qed

section \<open>Saving twice\<close>

text \<open>
  C9. Each article is looked up by its URL before anything is created, and \<open>create\<close> is
  called only when the lookup finds nothing. So when every article of a harvest is found
  by its URL, the harvest calls \<open>create\<close> for none of them and leaves the store as it was,
  whatever the store does.
\<close>

theorem saveArticles_existing:
  "(\<forall>a \<in> set articles. \<exists>existing. findOne M s (art_url a) = Inr (Some existing))
   \<longrightarrow> saveArticles M articles s = (s, [])"
  by (induction articles) auto

lemma findOne_list_model:
  "findOne list_model s u = Inr (find (\<lambda>a. art_url a = u) s)"
  by (simp add: list_model_def)

lemma urls_differ: "art_url article_one \<noteq> art_url article_two" "art_url article_two \<noteq> art_url article_one"
  by (simp_all add: article_one_def article_two_def)

theorem saveArticles_existing_witness:
  "saveArticles list_model [article_one, article_two] [] =
     ([article_one, article_two], [article_one, article_two])
   \<and> saveArticles list_model [article_one, article_two] [article_one, article_two] =
     ([article_one, article_two], [])"
proof -
  have 1: "saveArticles list_model [article_one, article_two] [] =
     ([article_one, article_two], [article_one, article_two])"
    by (simp add: list_model_def urls_differ)
  have "\<forall>a \<in> set [article_one, article_two].
          \<exists>existing. findOne list_model [article_one, article_two] (art_url a) = Inr (Some existing)"
    by (simp add: findOne_list_model urls_differ)
  with saveArticles_existing [of "[article_one, article_two]" list_model "[article_one, article_two]"]
  have "saveArticles list_model [article_one, article_two] [article_one, article_two] =
     ([article_one, article_two], [])" by blast
  with 1 show ?thesis by simp
qed

section \<open>No search results\<close>

text \<open>
  C5. When the search returns no URL, the run on the article ends without success, with
  the reason \<open>No Google results\<close> (the "no search results" of the specification); the
  only call it has made is the search, so neither the generation nor the save is called.
\<close>

theorem no_results_skips:
  "fst (searchGoogleForArticle svc (o_title a) w) = [] \<longrightarrow>
     fst (processOneArticle svc a w) = \<lparr>success = False, reason = Some ''No Google results''\<rparr>
     \<and> fst (snd (processOneArticle svc a w)) = [SearchCall (o_title a)]
     \<and> (\<forall>p. EnhanceCall p \<notin> set (fst (snd (processOneArticle svc a w))))
     \<and> (\<forall>data. SaveCall data \<notin> set (fst (snd (processOneArticle svc a w))))"
  by (auto simp: processOneArticle_def Let_def split: prod.splits)

lemma search_down: "fst (searchGoogleForArticle svc_down (o_title original_demo) ()) = []"
  by (simp add: searchGoogleForArticle_def svc_down_def svc_demo_def searchLinks_def)

theorem no_results_skips_witness:
  "fst (processOneArticle svc_down original_demo ())
     = \<lparr>success = False, reason = Some ''No Google results''\<rparr>
   \<and> fst (snd (processOneArticle svc_down original_demo ())) = [SearchCall ''Chatbots'']"
  using no_results_skips [of svc_down original_demo "()"] search_down
  by (simp add: original_demo_def)

section \<open>The references of a saved article\<close>

lemma searchLinks_length: "length (searchLinks response) \<le> 2"
  by (auto simp: searchLinks_def collectLinks_result split: sum.splits option.splits)

lemma scrapeReferences_result:
  assumes "scrapeReferences svc urls acc w = (refs, calls, w')"
  shows "\<exists>new. refs = acc @ new \<and> length new \<le> length urls
           \<and> (\<forall>r \<in> set new. ScrapeCall (ref_url r) (ref_content r) \<in> set calls
                              \<and> 500 < length (ref_content r))
           \<and> (\<forall>e \<in> set calls. \<exists>u c. e = ScrapeCall u c)"
  using assms
proof (induction urls arbitrary: acc w refs calls w')
  case Nil
  then show ?case by simp
next
  case (Cons url urls)
  obtain content w1 where sc: "scrapeContentFromURL svc url w = (content, w1)"
    by (cases "scrapeContentFromURL svc url w")
  let ?acc' = "if content \<noteq> [] \<and> length content > 500
               then acc @ [\<lparr>ref_url = url, ref_content = content\<rparr>] else acc"
  obtain refs1 log1 w2 where rec: "scrapeReferences svc urls ?acc' w1 = (refs1, log1, w2)"
    by (cases "scrapeReferences svc urls ?acc' w1")
  from Cons.prems sc rec have eq: "refs = refs1" "calls = ScrapeCall url content # log1"
    by (simp_all add: Let_def)
  from Cons.IH [OF rec] obtain new where new: "refs1 = ?acc' @ new" "length new \<le> length urls"
    "\<forall>r \<in> set new. ScrapeCall (ref_url r) (ref_content r) \<in> set log1 \<and> 500 < length (ref_content r)"
    "\<forall>e \<in> set log1. \<exists>u c. e = ScrapeCall u c"
    by blast
  show ?case
  proof (cases "content \<noteq> [] \<and> length content > 500")
    case True
    let ?new = "\<lparr>ref_url = url, ref_content = content\<rparr> # new"
    from True new eq have "refs = acc @ ?new" by simp
    moreover from new have "length ?new \<le> length (url # urls)" by simp
    moreover from True new eq
    have "\<forall>r \<in> set ?new. ScrapeCall (ref_url r) (ref_content r) \<in> set calls
                              \<and> 500 < length (ref_content r)" by auto
    moreover from new eq have "\<forall>e \<in> set calls. \<exists>u c. e = ScrapeCall u c" by auto
    ultimately show ?thesis by blast
  next
    case False
    from False new eq have "refs = acc @ new" by simp
    moreover from new have "length new \<le> length (url # urls)" by simp
    moreover from new eq
    have "\<forall>r \<in> set new. ScrapeCall (ref_url r) (ref_content r) \<in> set calls
                              \<and> 500 < length (ref_content r)" by auto
    moreover from new eq have "\<forall>e \<in> set calls. \<exists>u c. e = ScrapeCall u c" by auto
    ultimately show ?thesis by blast
  qed
qed

lemma processOneArticle_log:
  assumes s: "searchGoogleForArticle svc (o_title a) w = (g, w1)"
    and r: "scrapeReferences svc g [] w1 = (refs, log2, w2)"
    and m: "SaveCall data \<in> set (fst (snd (processOneArticle svc a w)))"
  shows "ad_references data = map ref_url refs \<and> set log2 \<subseteq> set (fst (snd (processOneArticle svc a w)))"
proof -
  from scrapeReferences_result [OF r] have only: "\<forall>e \<in> set log2. \<exists>u c. e = ScrapeCall u c"
    by blast
  then have ns: "SaveCall data \<notin> set log2" by auto
  from m s r ns show ?thesis
    by (auto simp: processOneArticle_def Let_def enhancedArticleData_def
        split: prod.splits if_splits option.splits)
qed

text \<open>
  C4. Every record that a run passes to the save has at most two references, and each of
  them is a URL that this run scraped with a result of more than 500 characters.
\<close>

theorem saved_references:
  "SaveCall data \<in> set (fst (snd (processOneArticle svc a w))) \<longrightarrow>
     length (ad_references data) \<le> 2
     \<and> (\<forall>u \<in> set (ad_references data).
           \<exists>c. ScrapeCall u c \<in> set (fst (snd (processOneArticle svc a w))) \<and> 500 < length c)"
proof
  assume m: "SaveCall data \<in> set (fst (snd (processOneArticle svc a w)))"
  obtain g w1 where s: "searchGoogleForArticle svc (o_title a) w = (g, w1)"
    by (cases "searchGoogleForArticle svc (o_title a) w")
  obtain refs log2 w2 where r: "scrapeReferences svc g [] w1 = (refs, log2, w2)"
    by (cases "scrapeReferences svc g [] w1")
  from s have "length g \<le> 2"
    by (auto simp: searchGoogleForArticle_def searchLinks_length split: prod.splits)
  moreover from scrapeReferences_result [OF r]
  have len: "length refs \<le> length g"
    and each: "\<forall>r \<in> set refs. ScrapeCall (ref_url r) (ref_content r) \<in> set log2
                              \<and> 500 < length (ref_content r)"
    by auto
  moreover from processOneArticle_log [OF s r m]
  have d: "ad_references data = map ref_url refs"
    and sub: "set log2 \<subseteq> set (fst (snd (processOneArticle svc a w)))" by auto
  ultimately have "length (ad_references data) \<le> 2" by simp
  moreover have "\<exists>c. ScrapeCall u c \<in> set (fst (snd (processOneArticle svc a w))) \<and> 500 < length c"
    if "u \<in> set (ad_references data)" for u
  proof -
    from that d obtain r where "r \<in> set refs" "u = ref_url r" by auto
    with each sub show ?thesis by blast
  qed
  ultimately show "length (ad_references data) \<le> 2
     \<and> (\<forall>u \<in> set (ad_references data).
           \<exists>c. ScrapeCall u c \<in> set (fst (snd (processOneArticle svc a w))) \<and> 500 < length c)"
    by blast
qed

lemma scrape_page_ref: "scrapeContent (Inr page_ref) = replicate 600 CHR ''r''"
  by (simp add: scrapeContent_def finishMainContent_def selectMainContent_def substring0_def
      contentSelectors_index_def page_ref_def page_simps)

lemma search_demo:
  "searchLinks (Inr (Some items_demo)) = [''https://a.example/x'', ''https://b.example/y'']"
  by (simp add: searchLinks_def collectLinks_result valid_demo List.map_filter_simps)

lemma log_demo:
  "fst (snd (processOneArticle svc_demo original_demo ())) =
     [SearchCall ''Chatbots'',
      ScrapeCall ''https://a.example/x'' (replicate 600 CHR ''r''),
      ScrapeCall ''https://b.example/y'' (replicate 600 CHR ''r''),
      EnhanceCall (aiPrompt ''Chatbots'' ''Old text'' refs_demo),
      SaveCall data_demo]"
  by (simp add: processOneArticle_def searchGoogleForArticle_def svc_demo_def search_demo
      scrapeContentFromURL_def scrape_page_ref enhanceArticleWithAI_def saveEnhancedArticle_def
      original_demo_def data_demo_def refs_demo_def Let_def)

theorem saved_references_witness:
  "SaveCall data_demo \<in> set (fst (snd (processOneArticle svc_demo original_demo ())))
   \<and> ad_references data_demo = [''https://a.example/x'', ''https://b.example/y'']
   \<and> length (ad_references data_demo) \<le> 2
   \<and> fst (processOneArticle svc_demo original_demo ()) = \<lparr>success = True, reason = None\<rparr>"
proof -
  have m: "SaveCall data_demo \<in> set (fst (snd (processOneArticle svc_demo original_demo ())))"
    by (simp add: log_demo)
  with saved_references [of data_demo svc_demo original_demo "()"]
  have "length (ad_references data_demo) \<le> 2" by blast
  moreover have "ad_references data_demo = [''https://a.example/x'', ''https://b.example/y'']"
    by (simp add: data_demo_def enhancedArticleData_def)
  moreover have "fst (processOneArticle svc_demo original_demo ()) = \<lparr>success = True, reason = None\<rparr>"
    by (simp add: processOneArticle_def searchGoogleForArticle_def svc_demo_def search_demo
      scrapeContentFromURL_def scrape_page_ref enhanceArticleWithAI_def saveEnhancedArticle_def
      original_demo_def Let_def)
  ultimately show ?thesis using m by simp
qed

section \<open>The scrape of one reference\<close>

lemma scrapeContentFromURL_eq:
  "scrapeContentFromURL svc url w =
     (scrapeContent (fst (page_get svc url w)), snd (page_get svc url w))"
  by (simp add: scrapeContentFromURL_def case_prod_beta)

text \<open>
  C10. The scrape of one reference returns a string for every URL and every outcome of
  the fetch: the empty string when the fetch or the parse fails, the finished content
  otherwise, and it leaves the world as the fetch left it. It does not enforce the
  minimum of 500 characters itself, since it can return a non-empty string that is not
  longer than 500; the references that the loop of the run keeps all have more than 500
  characters, so the minimum is the work of that loop.
\<close>

theorem scrape_total:
  "(fst (page_get svc url w) = Inl error \<longrightarrow> fst (scrapeContentFromURL svc url w) = [])
   \<and> (fst (page_get svc url w) = Inr d \<longrightarrow>
        fst (scrapeContentFromURL svc url w) = finishMainContent (selectMainContent d))
   \<and> snd (scrapeContentFromURL svc url w) = snd (page_get svc url w)
   \<and> (\<exists>page. scrapeContent page \<noteq> [] \<and> length (scrapeContent page) \<le> 500)
   \<and> (\<forall>r \<in> set (fst (scrapeReferences svc urls [] w)). 500 < length (ref_content r))"
proof (intro conjI impI)
  assume "fst (page_get svc url w) = Inl error"
  then show "fst (scrapeContentFromURL svc url w) = []"
    by (simp add: scrapeContentFromURL_eq scrapeContent_def)
next
  assume "fst (page_get svc url w) = Inr d"
  then show "fst (scrapeContentFromURL svc url w) = finishMainContent (selectMainContent d)"
    by (simp add: scrapeContentFromURL_eq scrapeContent_def)
next
  show "snd (scrapeContentFromURL svc url w) = snd (page_get svc url w)"
    by (simp add: scrapeContentFromURL_eq)
next
  have "scrapeContent (Inr page_brief) = ''short text''"
    by (simp add: scrapeContent_def finishMainContent_def selectMainContent_def
        contentSelectors_index_def page_brief_def no_page_def first_simps textOf_def el_def
        trim_def is_space_def)
  then have "scrapeContent (Inr page_brief) \<noteq> [] \<and> length (scrapeContent (Inr page_brief)) \<le> 500"
    by simp
  then show "\<exists>page. scrapeContent page \<noteq> [] \<and> length (scrapeContent page) \<le> 500" ..
next
  obtain refs calls w' where r: "scrapeReferences svc urls [] w = (refs, calls, w')"
    by (cases "scrapeReferences svc urls [] w")
  from scrapeReferences_result [OF r] r
  show "\<forall>r \<in> set (fst (scrapeReferences svc urls [] w)). 500 < length (ref_content r)"
    by auto
qed


theorem scrape_total_witness:
  "fst (scrapeContentFromURL svc_offline ''https://a.example/x'' ()) = []
   \<and> fst (scrapeContentFromURL svc_brief ''https://a.example/x'' ()) = ''short text''
   \<and> fst (scrapeReferences svc_brief [''https://a.example/x''] [] ()) = []
   \<and> fst (scrapeReferences svc_demo [''https://a.example/x''] [] ()) =
       [\<lparr>ref_url = ''https://a.example/x'', ref_content = replicate 600 CHR ''r''\<rparr>]"
proof -
  let ?u = "''https://a.example/x''"
  have "fst (page_get svc_offline ?u ()) = Inl (Failure ''timeout'')"
    by (simp add: svc_offline_def)
  with scrape_total [of svc_offline ?u "()" "Failure ''timeout''" page_brief "[]"]
  have 1: "fst (scrapeContentFromURL svc_offline ?u ()) = []" by blast
  have "fst (page_get svc_brief ?u ()) = Inr page_brief"
    by (simp add: svc_brief_def)
  with scrape_total [of svc_brief ?u "()" "Failure ''timeout''" page_brief "[]"]
  have "fst (scrapeContentFromURL svc_brief ?u ()) = finishMainContent (selectMainContent page_brief)"
    by blast
  also have "\<dots> = ''short text''"
    by (simp add: finishMainContent_def selectMainContent_def
        contentSelectors_index_def page_brief_def no_page_def first_simps textOf_def el_def
        trim_def is_space_def)
  finally have 2: "fst (scrapeContentFromURL svc_brief ?u ()) = ''short text''" .
  have b: "scrapeContentFromURL svc_brief ?u () = (''short text'', ())"
    using 2 by (cases "scrapeContentFromURL svc_brief ?u ()") simp
  have 3: "fst (scrapeReferences svc_brief [?u] [] ()) = []"
    by (simp add: b)
  have 4: "fst (scrapeReferences svc_demo [?u] [] ()) =
       [\<lparr>ref_url = ?u, ref_content = replicate 600 CHR ''r''\<rparr>]"
    by (simp add: scrapeContentFromURL_eq svc_demo_def scrape_page_ref)
  from 1 2 3 4 show ?thesis by simp
qed

end
